theory Spec2Isabelle
  imports Main "HOL-Library.Sublist"
begin

section \<open>Values and external collaborators\<close>

text \<open>
  The pipeline hands whatever \<^verbatim>\<open>json.loads\<close> decoded to the retriever, so the
  retriever's argument is a decoded value and not only a string.  A float is the decimal
  its literal denotes, \<open>\<plusminus> m \<times> 10\<^sup>e\<close>, before rounding to a double, or one of the three
  special literals; an object keeps its members in document order.  Text is a list of 8-bit
  characters: a Python string is taken by its UTF-8 bytes.
\<close>

datatype pyfloat = Finite bool nat int | NaN | Infinite bool

datatype json =
    JNull
  | JBool bool
  | JInt int
  | JFloat pyfloat
  | JString string
  | JArray "json list"
  | JObject "(string \<times> json) list"

text \<open>
  Every call on a collaborator is recorded, in order: \<^verbatim>\<open>_connect_to_db()\<close>,
  \<^verbatim>\<open>model.encode(text)\<close>, \<^verbatim>\<open>cur.execute(sql, params)\<close>, \<^verbatim>\<open>conn.rollback()\<close>,
  \<^verbatim>\<open>conn.close()\<close> and \<^verbatim>\<open>generation_model.generate_content(prompt)\<close>.
\<close>

datatype sql_param = EmbeddingOf string | Param json

datatype event =
    ConnectToDb
  | Encode string
  | Execute json "sql_param list"
  | Rollback
  | Close
  | GenerateContent string

text \<open>
  What a structured query gives back: \<^verbatim>\<open>cur.execute\<close> raises (with the text the
  exception formats to), or the statement has no result set (\<^verbatim>\<open>cur.description\<close> is
  \<^verbatim>\<open>None\<close>), or \<^verbatim>\<open>fetchall()\<close> returns rows.  A cell is a string or some other database
  value, carried by the text Python's \<^verbatim>\<open>repr\<close> prints for it.
\<close>

datatype cell = Text string | Other string

type_synonym row = "cell list"

datatype sql_outcome = SqlRaises string | NoResultSet | Fetched "row list"

text \<open>
  What \<^verbatim>\<open>generate_content\<close> gives back: it raises, or it returns a response whose
  \<^verbatim>\<open>.text\<close> is a string or raises (\<open>None\<close>) and whose
  \<^verbatim>\<open>prompt_feedback.block_reason\<close> is falsy (\<open>None\<close>) or formats to a reason.
\<close>

datatype lm_outcome = LmRaises | LmResponse "string option" "string option"

text \<open>
  The collaborators' behaviour.  Loading the sentence-transformer model raises or gives
  a model with an embedding dimension.  Rows of the two searches are modelled by their first
  column (\<^verbatim>\<open>row[0]\<close>, the passage text), the only column the retriever reads;
  \<open>None\<close> means that the cursor raised.  \<^verbatim>\<open>conn.rollback()\<close>, \<^verbatim>\<open>conn.close()\<close> and
  \<^verbatim>\<open>print\<close> are taken to return normally, and the interpreter's resource limits
  (recursion depth, digits of an integer literal) are not modelled.  \<open>str_rows\<close> and
  \<open>str_value\<close> are Python's \<^verbatim>\<open>str\<close> of a list of row tuples and of a decoded value that
  is not a string, as an f-string interpolates them.
\<close>

datatype load_outcome = LoadRaises | Loaded nat

record env =
  load_trusting_remote_code :: load_outcome
  load_plain :: load_outcome
  connect_ok :: bool
  encode_ok :: "string \<Rightarrow> bool"
  vector_rows :: "string \<Rightarrow> string list option"
  closed_after_vector :: bool
  reconnect_ok :: bool
  keyword_rows :: "json \<Rightarrow> string list option"
  closed_at_end :: bool
  run_sql :: "json \<Rightarrow> sql_outcome"
  generate_content :: "string \<Rightarrow> lm_outcome"
  str_rows :: "row list \<Rightarrow> string"
  str_value :: "json \<Rightarrow> string"

section \<open>retriever.py\<close>

definition newline :: char where
  "newline = CHR 0x0A"

definition unlines :: "string list \<Rightarrow> string" where
  "unlines ls = concat (map (\<lambda>l. l @ [newline]) ls)"

definition MODEL_NAME :: string where
  "MODEL_NAME = ''BAAI/bge-base-en-v1.5''"

definition QUERY_PREFIX :: string where
  "QUERY_PREFIX = ''Represent this sentence for searching relevant passages: ''"

definition TOP_K :: nat where
  "TOP_K = 5"

text \<open>
  Module initialisation: the model is loaded with \<^verbatim>\<open>trust_remote_code=True\<close>, on an
  exception without it; a model of another dimension than 768, or an exception of the
  second attempt, leaves \<^verbatim>\<open>model = None\<close>.
\<close>

definition model_loaded :: "env \<Rightarrow> bool" where
  "model_loaded env =
     (case (case load_trusting_remote_code env of
              Loaded d \<Rightarrow> Loaded d
            | LoadRaises \<Rightarrow> load_plain env) of
        Loaded actual_dimension \<Rightarrow> actual_dimension = 768
      | LoadRaises \<Rightarrow> False)"

text \<open>Python's \<^verbatim>\<open>str\<close> of a non-negative integer, as an f-string interpolates it.\<close>

definition digit_char :: "nat \<Rightarrow> char" where
  "digit_char d = char_of (of_char (CHR ''0'') + d)"

fun str_nat :: "nat \<Rightarrow> string" where
  "str_nat n = (if n < 10 then [digit_char n] else str_nat (n div 10) @ [digit_char (n mod 10)])"

text \<open>
  The vector search statement is an f-string: \<^verbatim>\<open>{TOP_K}\<close> is interpolated.
\<close>

definition vector_query :: string where
  "vector_query =
     [newline] @
     unlines
      [''                SELECT text_chunk, embedding <-> %s AS distance'',
       ''                FROM chunks'',
       ''                ORDER BY distance'',
       ''                LIMIT '' @ str_nat TOP_K @ '';''] @
     ''                ''"

text \<open>
  The keyword search statement is a plain string literal: the braces stay.
\<close>

definition keyword_query :: string where
  "keyword_query =
     [newline] @
     unlines
      [''                SELECT text_chunk, ts_rank_cd(to_tsvector('english', text_chunk), query) AS rank'',
       ''                FROM chunks, websearch_to_tsquery('english', %s) query'',
       ''                WHERE query @@ to_tsvector('english', text_chunk)'',
       ''                ORDER BY rank DESC'',
       ''                LIMIT {TOP_K};''] @
     ''            ''"

text \<open>
  \<^verbatim>\<open>combined_results_map\<close> is a Python dict: keys keep the order of their first
  insertion, an assignment to a present key replaces the value in place.
\<close>

type_synonym ranks = "(string \<times> nat) list"

fun dict_set :: "ranks \<Rightarrow> string \<Rightarrow> nat \<Rightarrow> ranks" where
  "dict_set [] k v = [(k, v)]"
| "dict_set ((k', v') # m) k v =
     (if k' = k then (k', v) # m else (k', v') # dict_set m k v)"

definition dict_contains :: "ranks \<Rightarrow> string \<Rightarrow> bool" where
  "dict_contains m k = (map_of m k \<noteq> None)"

definition dict_keys :: "ranks \<Rightarrow> string list" where
  "dict_keys m = map fst m"

definition dict_item :: "ranks \<Rightarrow> string \<Rightarrow> nat" where
  "dict_item m k = the (map_of m k)"

text \<open>\<^verbatim>\<open>for i, row in enumerate(rows): combined_results_map[row[0]] = i\<close>\<close>

fun assign_vector_ranks :: "ranks \<Rightarrow> nat \<Rightarrow> string list \<Rightarrow> ranks" where
  "assign_vector_ranks m i [] = m"
| "assign_vector_ranks m i (r # rows) = assign_vector_ranks (dict_set m r i) (Suc i) rows"

text \<open>
  \<^verbatim>\<open>for row in rows: if row[0] not in combined_results_map:
  combined_results_map[row[0]] = 100\<close>
\<close>

definition KEYWORD_ONLY_RANK :: nat where
  "KEYWORD_ONLY_RANK = 100"

fun assign_keyword_ranks :: "ranks \<Rightarrow> string list \<Rightarrow> ranks" where
  "assign_keyword_ranks m [] = m"
| "assign_keyword_ranks m (r # rows) =
     assign_keyword_ranks (if dict_contains m r then m else dict_set m r KEYWORD_ONLY_RANK) rows"

text \<open>
  \<^verbatim>\<open>sorted(combined_results_map.keys(), key=lambda x: combined_results_map[x])\<close>:
  Python's sort is stable, as \<^const>\<open>sort_key\<close> is.
\<close>

definition ranked_results :: "ranks \<Rightarrow> string list" where
  "ranked_results m = sort_key (dict_item m) (dict_keys m)"

text \<open>
  The first \<^verbatim>\<open>try\<close> block.  \<^verbatim>\<open>QUERY_PREFIX + query_text\<close> raises for a value
  that is not a string; \<^verbatim>\<open>model.encode\<close> and the cursor may raise.  The result is the
  calls made and the rows, \<open>None\<close> when the block raised.
\<close>

definition vector_search :: "env \<Rightarrow> json \<Rightarrow> event list \<times> string list option" where
  "vector_search env query_text =
     (case query_text of
        JString s \<Rightarrow>
          (let query_with_prefix = QUERY_PREFIX @ s in
           if \<not> encode_ok env query_with_prefix then ([Encode query_with_prefix], None)
           else ([Encode query_with_prefix,
                  Execute (JString vector_query) [EmbeddingOf query_with_prefix]],
                 vector_rows env query_with_prefix))
      | _ \<Rightarrow> ([], None))"

text \<open>
  The second \<^verbatim>\<open>try\<close> block with its \<^verbatim>\<open>finally\<close>: a closed connection is reopened,
  and a failed reopening raises inside the block.  With \<open>conn\<close> being \<^verbatim>\<open>None\<close>
  the \<^verbatim>\<open>finally\<close> clause closes nothing.
\<close>

definition keyword_search :: "env \<Rightarrow> json \<Rightarrow> event list \<times> string list option" where
  "keyword_search env query_text =
     (if closed_after_vector env \<and> \<not> reconnect_ok env then ([ConnectToDb], None)
      else
        ((if closed_after_vector env then [ConnectToDb] else []) @
         [Execute (JString keyword_query) [Param query_text]] @
         (if closed_at_end env then [] else [Close]),
         keyword_rows env query_text))"

definition query_vector_db :: "env \<Rightarrow> json \<Rightarrow> event list \<times> string list" where
  "query_vector_db env query_text =
     (if \<not> model_loaded env then ([], [''Error: SentenceTransformer model is not loaded.''])
      else if \<not> connect_ok env then ([ConnectToDb], [''Database connection error.''])
      else
        let (t1, vec) = vector_search env query_text;
            (t1', m1) = (case vec of
                           Some rows \<Rightarrow> (t1, assign_vector_ranks [] 0 rows)
                         | None \<Rightarrow> (t1 @ [Rollback], []));
            (t2, kw) = keyword_search env query_text;
            m2 = (case kw of
                    Some rows \<Rightarrow> assign_keyword_ranks m1 rows
                  | None \<Rightarrow> m1);
            ranked = ranked_results m2
        in (ConnectToDb # t1' @ t2,
            if ranked = [] then [''No relevant documents found.''] else take 10 ranked))"

text \<open>
  What each search found, for stating properties of the fused list: the rows of a search
  that returned, nothing for a search that raised.
\<close>

definition vector_hits :: "env \<Rightarrow> json \<Rightarrow> string list" where
  "vector_hits env query_text =
     (case snd (vector_search env query_text) of Some rows \<Rightarrow> rows | None \<Rightarrow> [])"

definition keyword_hits :: "env \<Rightarrow> json \<Rightarrow> string list" where
  "keyword_hits env query_text =
     (case snd (keyword_search env query_text) of Some rows \<Rightarrow> rows | None \<Rightarrow> [])"

text \<open>
  The specification's ``deduplicated in their order'': every text once, at the place of
  its first occurrence, leaving out the texts already \<open>seen\<close>.
\<close>

fun dedup_in_order :: "'a list \<Rightarrow> 'a list \<Rightarrow> 'a list" where
  "dedup_in_order seen [] = []"
| "dedup_in_order seen (x # xs) =
     (if x \<in> set seen then dedup_in_order seen xs else x # dedup_in_order (x # seen) xs)"

section \<open>query\_pipeline.py\<close>

subsection \<open>The regular expression\<close>

text \<open>
  \<^verbatim>\<open>re.search(r"\{.*\}", text, re.DOTALL)\<close>.  \<open>match_to_last_brace\<close> is \<^verbatim>\<open>.*\}\<close> at a
  fixed position: the star is greedy, so the dot first takes the next character, and only
  when the rest cannot match does the closing brace have to stand here.  \<open>re_search\<close>
  tries the start positions from the left.
\<close>

fun match_to_last_brace :: "string \<Rightarrow> string option" where
  "match_to_last_brace [] = None"
| "match_to_last_brace (c # cs) =
     (case match_to_last_brace cs of
        Some m \<Rightarrow> Some (c # m)
      | None \<Rightarrow> if c = CHR ''}'' then Some [c] else None)"


subsection \<open>json.loads\<close>
























subsection \<open>\_parse\_json\_from\_response\<close>




subsection \<open>textwrap.dedent\<close>








subsection \<open>The two prompts\<close>






subsection \<open>Python's truth value and \<^verbatim>\<open>str\<close> of a decoded value\<close>





subsection \<open>query\_relational\_db\<close>


subsection \<open>handle\_user\_query\<close>






section \<open>Concrete collaborators\<close>

text \<open>Environments on which the theorems below are instantiated.\<close>

definition env_demo :: env where
  "env_demo = \<lparr>
     load_trusting_remote_code = LoadRaises,
     load_plain = Loaded 768,
     connect_ok = True,
     encode_ok = (\<lambda>_. True),
     vector_rows = (\<lambda>_. Some [''A'', ''B'', ''C'']),
     closed_after_vector = False,
     reconnect_ok = False,
     keyword_rows = (\<lambda>_. Some [''B'', ''D'', ''E'']),
     closed_at_end = False,
     run_sql = (\<lambda>_. NoResultSet),
     generate_content = (\<lambda>_. LmRaises),
     str_rows = (\<lambda>_. []),
     str_value = (\<lambda>_. [])
   \<rparr>"

definition env_vector_down :: env where
  "env_vector_down = env_demo\<lparr>vector_rows := (\<lambda>_. None), keyword_rows := (\<lambda>_. Some [])\<rparr>"

definition env_keyword_only :: env where
  "env_keyword_only =
     env_demo\<lparr>vector_rows := (\<lambda>_. None), keyword_rows := (\<lambda>_. Some [''B'', ''D'', ''B''])\<rparr>"




section \<open>The hybrid retrieval\<close>

lemma dict_set_keys: "map fst (dict_set m k v) = (if k \<in> set (map fst m) then map fst m else map fst m @ [k])"
  by (induction m) force+

lemma dict_set_distinct: "distinct (map fst m) \<Longrightarrow> distinct (map fst (dict_set m k v))"
  by (simp add: dict_set_keys)

lemma dict_set_fresh: "k \<notin> set (map fst m) \<Longrightarrow> dict_set m k v = m @ [(k, v)]"
  by (induction m) auto

lemma dict_set_ranks: "(k', r) \<in> set (dict_set m k v) \<Longrightarrow> r = v \<or> (k', r) \<in> set m"
  by (induction m) (auto split: if_splits)

lemma dict_set_key_set: "set (map fst (dict_set m k v)) = insert k (set (map fst m))"
  by (auto simp: dict_set_keys)

lemma vector_keys: "set (map fst (assign_vector_ranks m i rows)) = set (map fst m) \<union> set rows"
proof (induction rows arbitrary: m i)
  case Nil then show ?case by simp
next
  case (Cons r rows)
  show ?case
    unfolding assign_vector_ranks.simps Cons.IH dict_set_key_set by auto
qed

lemma vector_distinct: "distinct (map fst m) \<Longrightarrow> distinct (map fst (assign_vector_ranks m i rows))"
  by (induction rows arbitrary: m i) (auto simp: dict_set_distinct)

lemma vector_bound: "\<forall>p \<in> set m. snd p < i \<Longrightarrow> \<forall>p \<in> set (assign_vector_ranks m i rows). snd p < i + length rows"
proof (induction rows arbitrary: m i)
  case Nil then show ?case by simp
next
  case (Cons a rows)
  have "\<forall>p \<in> set (dict_set m a i). snd p < Suc i"
  proof
    fix p assume "p \<in> set (dict_set m a i)"
    then have "snd p = i \<or> p \<in> set m" using dict_set_ranks[of "fst p" "snd p" m a i] by simp
    then show "snd p < Suc i" using Cons.prems by (auto simp: less_Suc_eq)
  qed
  from Cons.IH[OF this] show ?case by simp
qed

lemma dedup_seen_set: "set s = set s' \<Longrightarrow> dedup_in_order s xs = dedup_in_order s' xs"
proof (induction xs arbitrary: s s')
  case Nil then show ?case by simp
next
  case (Cons x xs)
  have "dedup_in_order s xs = dedup_in_order s' xs" using Cons.prems by (rule Cons.IH)
  moreover have "dedup_in_order (x # s) xs = dedup_in_order (x # s') xs"
    using Cons.prems by (intro Cons.IH) simp
  ultimately show ?case using Cons.prems by simp
qed

lemma dedup_set: "set (dedup_in_order s xs) = set xs - set s"
  by (induction xs arbitrary: s) auto

lemma dedup_distinct: "distinct (dedup_in_order s xs)"
  by (induction xs arbitrary: s) (auto simp: dedup_set)

lemma dedup_Nil_iff: "dedup_in_order [] xs = [] \<longleftrightarrow> xs = []"
  by (cases xs) auto

lemma dict_contains_iff: "dict_contains m k \<longleftrightarrow> k \<in> set (map fst m)"
  by (simp add: dict_contains_def map_of_eq_None_iff)

lemma keyword_ranks_append:
  "assign_keyword_ranks m rows =
     m @ map (\<lambda>k. (k, KEYWORD_ONLY_RANK)) (dedup_in_order (map fst m) rows)"
proof (induction rows arbitrary: m)
  case Nil then show ?case by simp
next
  case (Cons r rows)
  show ?case
  proof (cases "r \<in> set (map fst m)")
    case True
    then show ?thesis using Cons.IH[of m] by (simp add: dict_contains_iff)
  next
    case False
    have s: "dedup_in_order (map fst m @ [r]) rows = dedup_in_order (r # map fst m) rows"
      by (rule dedup_seen_set) auto
    show ?thesis using False Cons.IH[of "m @ [(r, KEYWORD_ONLY_RANK)]"]
      by (simp add: dict_contains_iff dict_set_fresh s)
  qed
qed

lemma insort_key_cong_on: "f x = g x \<Longrightarrow> \<forall>y\<in>set ys. f y = g y \<Longrightarrow> insort_key f x ys = insort_key g x ys"
  by (induction ys) auto

lemma sort_key_cong_on: "\<forall>x\<in>set xs. f x = g x \<Longrightarrow> sort_key f xs = sort_key g xs"
proof (induction xs)
  case Nil then show ?case by simp
next
  case (Cons x xs)
  then have "sort_key f xs = sort_key g xs" by simp
  moreover have "insort_key f x (sort_key g xs) = insort_key g x (sort_key g xs)"
    using Cons.prems by (intro insort_key_cong_on) auto
  ultimately show ?case by (simp add: sort_key_simps)
qed

lemma insort_key_before_block:
  "\<forall>y\<in>set ys. f x < f y \<Longrightarrow> insort_key f x (zs @ ys) = insort_key f x zs @ ys"
proof (induction zs)
  case Nil then show ?case by (cases ys) auto
next
  case (Cons z zs) then show ?case by simp
qed

lemma sort_key_const_block: "\<forall>y\<in>set ys. f y = c \<Longrightarrow> sort_key f ys = ys"
proof (induction ys)
  case Nil then show ?case by simp
next
  case (Cons y ys)
  then have "sort_key f ys = ys" by simp
  then show ?case using Cons.prems by (cases ys) (simp_all add: sort_key_simps)
qed

lemma sort_key_append_block:
  fixes f :: "'a \<Rightarrow> nat"
  assumes "\<forall>x\<in>set xs. f x < c" "\<forall>y\<in>set ys. f y = c"
  shows "sort_key f (xs @ ys) = sort_key f xs @ ys"
  using assms
proof (induction xs)
  case Nil then show ?case using sort_key_const_block[of ys f c] by simp
next
  case (Cons x xs)
  then have ih: "sort_key f (xs @ ys) = sort_key f xs @ ys" by simp
  have "\<forall>y\<in>set ys. f x < f y" using Cons.prems by simp
  then show ?case by (simp add: sort_key_simps ih insort_key_before_block)
qed

lemma dict_item_left:
  assumes "k \<in> set (map fst m)"
  shows "dict_item (m @ e) k = dict_item m k"
proof -
  from assms obtain v where "map_of m k = Some v"
    by (cases "map_of m k") (auto simp: map_of_eq_None_iff)
  then show ?thesis by (simp add: dict_item_def map_add_find_right)
qed

lemma dict_item_right:
  assumes "k \<notin> set (map fst m)" "k \<in> set ks"
  shows "dict_item (m @ map (\<lambda>k. (k, c)) ks) k = c"
proof -
  have "map_of m k = None" using assms(1) by (simp add: map_of_eq_None_iff)
  moreover have "map_of (map (\<lambda>k. (k, c)) ks) k = Some c"
    using assms(2) by (simp add: map_of_map_restrict)
  ultimately show ?thesis by (simp add: dict_item_def map_add_def)
qed

lemma dict_item_bound: "distinct (map fst m) \<Longrightarrow> k \<in> set (map fst m) \<Longrightarrow> (k, dict_item m k) \<in> set m"
  by (auto simp: dict_item_def)

lemma ranked_fused:
  assumes b: "\<forall>p\<in>set m. snd p < KEYWORD_ONLY_RANK" and d: "distinct (map fst m)"
  shows "ranked_results (assign_keyword_ranks m rows) =
           ranked_results m @ dedup_in_order (map fst m) rows"
proof -
  let ?ks = "dedup_in_order (map fst m) rows"
  let ?m2 = "m @ map (\<lambda>k. (k, KEYWORD_ONLY_RANK)) ?ks"
  let ?g = "\<lambda>k. if k \<in> set (map fst m) then dict_item m k else KEYWORD_ONLY_RANK"
  have keys: "map fst ?m2 = map fst m @ ?ks" by (simp add: comp_def)
  have agree: "\<forall>k\<in>set (map fst m @ ?ks). dict_item ?m2 k = ?g k"
  proof
    fix k assume k: "k \<in> set (map fst m @ ?ks)"
    show "dict_item ?m2 k = ?g k"
    proof (cases "k \<in> set (map fst m)")
      case True then show ?thesis using dict_item_left[of k m] by simp
    next
      case False
      with k have "k \<in> set ?ks" by simp
      with False show ?thesis using dict_item_right[of k m ?ks KEYWORD_ONLY_RANK] by simp
    qed
  qed
  have lo: "\<forall>k\<in>set (map fst m). ?g k < KEYWORD_ONLY_RANK"
  proof
    fix k assume k: "k \<in> set (map fst m)"
    then have "(k, dict_item m k) \<in> set m" using d by (rule dict_item_bound[rotated])
    then have "dict_item m k < KEYWORD_ONLY_RANK" using b by force
    then show "?g k < KEYWORD_ONLY_RANK" using k by (simp only: if_True)
  qed
  have hi: "\<forall>k\<in>set ?ks. ?g k = KEYWORD_ONLY_RANK"
    by (auto simp: dedup_set)
  have left: "sort_key ?g (map fst m) = sort_key (dict_item m) (map fst m)"
    by (rule sort_key_cong_on) simp
  have "ranked_results ?m2 = sort_key (dict_item ?m2) (map fst m @ ?ks)"
    unfolding ranked_results_def dict_keys_def keys ..
  also have "\<dots> = sort_key ?g (map fst m @ ?ks)"
    using agree by (rule sort_key_cong_on)
  also have "\<dots> = sort_key ?g (map fst m) @ ?ks"
    using lo hi by (rule sort_key_append_block)
  also have "\<dots> = ranked_results m @ ?ks"
    unfolding left ranked_results_def dict_keys_def ..
  finally show ?thesis
    unfolding keyword_ranks_append .
qed

lemma vector_ranks_props:
  "distinct (map fst (assign_vector_ranks [] 0 rows))"
  "set (map fst (assign_vector_ranks [] 0 rows)) = set rows"
  "\<forall>p\<in>set (assign_vector_ranks [] 0 rows). snd p < length rows"
  using vector_distinct[of "[]" 0 rows] vector_keys[of "[]" 0 rows] vector_bound[of "[]" 0 rows]
  by simp_all

lemma ranked_results_set: "set (ranked_results m) = set (map fst m)"
  by (simp add: ranked_results_def dict_keys_def)

lemma ranked_results_distinct: "distinct (map fst m) \<Longrightarrow> distinct (ranked_results m)"
  by (simp add: ranked_results_def dict_keys_def)

text \<open>The fused list in the main branch, where the model is loaded and the connection opens.\<close>

lemma query_vector_db_main:
  assumes "model_loaded env" "connect_ok env"
  shows "snd (query_vector_db env q) =
     (let ranked = ranked_results (assign_keyword_ranks
            (case snd (vector_search env q) of Some rows \<Rightarrow> assign_vector_ranks [] 0 rows | None \<Rightarrow> [])
            (keyword_hits env q))
      in if ranked = [] then [''No relevant documents found.''] else take 10 ranked)"
  using assms
  by (cases "vector_search env q"; cases "keyword_search env q")
     (auto simp: query_vector_db_def keyword_hits_def Let_def split: option.splits)

lemma fused_shape:
  assumes "model_loaded env" "connect_ok env" "length (vector_hits env q) \<le> KEYWORD_ONLY_RANK"
  shows "\<exists>vs. set vs = set (vector_hits env q) \<and> distinct vs \<and>
           snd (query_vector_db env q) =
             (let ranked = vs @ dedup_in_order vs (keyword_hits env q)
              in if ranked = [] then [''No relevant documents found.''] else take 10 ranked)"
proof -
  define m1 where "m1 = (case snd (vector_search env q) of Some rows \<Rightarrow> assign_vector_ranks [] 0 rows | None \<Rightarrow> [])"
  have m1: "m1 = assign_vector_ranks [] 0 (vector_hits env q)"
    by (simp add: m1_def vector_hits_def split: option.splits)
  have d: "distinct (map fst m1)" and s: "set (map fst m1) = set (vector_hits env q)"
    and b: "\<forall>p\<in>set m1. snd p < KEYWORD_ONLY_RANK"
    using vector_ranks_props[of "vector_hits env q"] assms(3) unfolding m1 by auto
  have e: "dedup_in_order (map fst m1) ks = dedup_in_order (ranked_results m1) ks" for ks
    by (rule dedup_seen_set) (simp add: ranked_results_set)
  have f: "ranked_results (assign_keyword_ranks m1 (keyword_hits env q)) =
          ranked_results m1 @ dedup_in_order (ranked_results m1) (keyword_hits env q)"
    unfolding ranked_fused[OF b d] e ..
  have "snd (query_vector_db env q) =
             (let ranked = ranked_results (assign_keyword_ranks m1 (keyword_hits env q))
              in if ranked = [] then [''No relevant documents found.''] else take 10 ranked)"
    unfolding m1_def by (rule query_vector_db_main[OF assms(1,2)])
  then have "snd (query_vector_db env q) =
             (let ranked = ranked_results m1 @ dedup_in_order (ranked_results m1) (keyword_hits env q)
              in if ranked = [] then [''No relevant documents found.''] else take 10 ranked)"
    unfolding f .
  moreover have "set (ranked_results m1) = set (vector_hits env q)" "distinct (ranked_results m1)"
    using s d by (simp_all add: ranked_results_set ranked_results_distinct)
  ultimately show ?thesis by blast
qed

lemma take_block_order:
  assumes "i < length (take n (vs @ ks))" "j < length (take n (vs @ ks))"
    "take n (vs @ ks) ! i \<in> set vs" "take n (vs @ ks) ! j \<notin> set vs" "set ks \<inter> set vs = {}"
  shows "i < j"
proof -
  have li: "i < length (vs @ ks)" and lj: "j < length (vs @ ks)" and "i < n" and "j < n"
    using assms(1,2) by simp_all
  then have "take n (vs @ ks) ! i = (vs @ ks) ! i" "take n (vs @ ks) ! j = (vs @ ks) ! j"
    by (simp_all only: nth_take)
  then have i: "(vs @ ks) ! i \<in> set vs" and j: "(vs @ ks) ! j \<notin> set vs"
    using assms(3,4) by (simp_all del: take_append)
  have "i < length vs"
  proof (rule ccontr)
    assume "\<not> i < length vs"
    then have "(vs @ ks) ! i \<in> set ks" using li by (simp add: nth_append)
    with i assms(5) show False by auto
  qed
  moreover have "\<not> j < length vs"
  proof
    assume "j < length vs"
    then have "(vs @ ks) ! j \<in> set vs" by (simp add: nth_append)
    with j show False by simp
  qed
  ultimately show ?thesis by simp
qed

lemma singleton_invariant:
  "distinct [s] \<and> length [s] \<le> 10 \<and>
   (\<forall>i j. i < length [s] \<and> j < length [s] \<and> [s] ! i \<in> V \<and> [s] ! j \<notin> V \<longrightarrow> i < j)"
proof -
  have "i < j" if "i < length [s]" "j < length [s]" "[s] ! i \<in> V" "[s] ! j \<notin> V" for i j
  proof -
    from that(1,2) have "i = 0" "j = 0" by simp_all
    with that(3,4) show ?thesis by simp
  qed
  then have "\<forall>i j. i < length [s] \<and> j < length [s] \<and> [s] ! i \<in> V \<and> [s] ! j \<notin> V \<longrightarrow> i < j"
    by blast
  moreover have "distinct [s]" "length [s] \<le> 10" by simp_all
  ultimately show ?thesis by blast
qed

text \<open>
  Claim C2.  Whatever the two searches return, the list \<^verbatim>\<open>query_vector_db\<close> returns has no
  duplicate text and at most ten entries, and every text the vector search found stands
  before every text it did not find.  The vector search returns at most as many rows as
  the rank given to keyword-only texts (its statement has \<^verbatim>\<open>LIMIT 5\<close>, the rank is 100).
\<close>

theorem C2_fused_invariant:
  assumes "length (vector_hits env q) \<le> KEYWORD_ONLY_RANK"
  shows "distinct (snd (query_vector_db env q)) \<and>
         length (snd (query_vector_db env q)) \<le> 10 \<and>
         (\<forall>i j. i < length (snd (query_vector_db env q)) \<and>
                j < length (snd (query_vector_db env q)) \<and>
                snd (query_vector_db env q) ! i \<in> set (vector_hits env q) \<and>
                snd (query_vector_db env q) ! j \<notin> set (vector_hits env q) \<longrightarrow> i < j)"
proof (cases "model_loaded env \<and> connect_ok env")
  case False
  then obtain s where s: "snd (query_vector_db env q) = [s]"
    by (cases "model_loaded env") (auto simp: query_vector_db_def)
  show ?thesis unfolding s by (rule singleton_invariant)
next
  case True
  then obtain vs where vs: "set vs = set (vector_hits env q)" "distinct vs"
    and r: "snd (query_vector_db env q) =
             (let ranked = vs @ dedup_in_order vs (keyword_hits env q)
              in if ranked = [] then [''No relevant documents found.''] else take 10 ranked)"
    using fused_shape[of env q] assms by blast
  let ?ks = "dedup_in_order vs (keyword_hits env q)"
  show ?thesis
  proof (cases "vs @ ?ks = []")
    case True
    have res: "snd (query_vector_db env q) = [''No relevant documents found.'']"
      unfolding r Let_def by (simp only: True simp_thms if_True)
    show ?thesis unfolding res by (rule singleton_invariant)
  next
    case False
    have res: "snd (query_vector_db env q) = take 10 (vs @ ?ks)"
      unfolding r Let_def by (simp only: False simp_thms if_False)
    have dis: "set ?ks \<inter> set vs = {}" by (auto simp: dedup_set)
    have "distinct (vs @ ?ks)" using vs(2) dis by (simp add: dedup_distinct Int_commute)
    then have "distinct (take 10 (vs @ ?ks))" by (rule distinct_take)
    moreover have "length (take 10 (vs @ ?ks)) \<le> 10" by simp
    moreover have "\<forall>i j. i < length (take 10 (vs @ ?ks)) \<and> j < length (take 10 (vs @ ?ks)) \<and>
        take 10 (vs @ ?ks) ! i \<in> set vs \<and> take 10 (vs @ ?ks) ! j \<notin> set vs \<longrightarrow> i < j"
      using take_block_order[of _ 10 vs ?ks, OF _ _ _ _ dis] by blast
    ultimately show ?thesis unfolding res vs(1)[symmetric] by blast
  qed
qed

lemma model_loaded_demo: "model_loaded env_demo"
  by (simp add: model_loaded_def env_demo_def)

text \<open>
  Claim C10.  When the sentence-transformer model is \<^verbatim>\<open>None\<close>, \<^verbatim>\<open>query_vector_db\<close> returns
  the one-element list with the error text, and calls no collaborator: no connection, no
  statement.
\<close>

theorem C10_model_not_loaded:
  assumes "\<not> model_loaded env"
  shows "query_vector_db env query_text =
           ([], [''Error: SentenceTransformer model is not loaded.''])"
  using assms by (simp add: query_vector_db_def)

theorem C10_witness:
  "\<not> model_loaded (env_demo\<lparr>load_plain := LoadRaises\<rparr>) \<and>
   query_vector_db (env_demo\<lparr>load_plain := LoadRaises\<rparr>) (JString ''What is RAG?'') =
     ([], [''Error: SentenceTransformer model is not loaded.''])"
proof -
  have h: "\<not> model_loaded (env_demo\<lparr>load_plain := LoadRaises\<rparr>)"
    by (simp add: model_loaded_def env_demo_def)
  show ?thesis using h C10_model_not_loaded[OF h] by simp
qed

text \<open>
  Claim C1.  With vector rows \<open>[A, B, C]\<close> and keyword rows \<open>[B, D, E]\<close>, five different
  passages, the fused list is \<open>[A, B, C, D, E]\<close>, without a duplicate.
\<close>

theorem C1_fusion_example:
  assumes "model_loaded env" "connect_ok env"
    and "snd (vector_search env (JString q)) = Some [A, B, C]"
    and "snd (keyword_search env (JString q)) = Some [B, D, E]"
    and "distinct [A, B, C, D, E]"
  shows "snd (query_vector_db env (JString q)) = [A, B, C, D, E] \<and>
         distinct (snd (query_vector_db env (JString q)))"
proof -
  have ne: "A \<noteq> B" "A \<noteq> C" "A \<noteq> D" "A \<noteq> E" "B \<noteq> C" "B \<noteq> D" "B \<noteq> E"
    "C \<noteq> D" "C \<noteq> E" "D \<noteq> E" "B \<noteq> A" "C \<noteq> A" "D \<noteq> A" "E \<noteq> A" "C \<noteq> B"
    "D \<noteq> B" "E \<noteq> B" "D \<noteq> C" "E \<noteq> C" "E \<noteq> D"
    using assms(5) by auto
  have k: "keyword_hits env (JString q) = [B, D, E]"
    using assms(4) by (simp add: keyword_hits_def)
  define m where "m = [(A, 0::nat), (B, 1), (C, 2)]"
  have m1: "(case Some [A, B, C] of Some rows \<Rightarrow> assign_vector_ranks [] 0 rows | None \<Rightarrow> []) = m"
    by (simp add: ne m_def)
  have r1: "ranked_results m = [A, B, C]"
    by (simp add: ranked_results_def dict_keys_def dict_item_def ne m_def)
  have r2: "dedup_in_order (map fst m) [B, D, E] = [D, E]"
    by (simp add: ne m_def)
  have f: "ranked_results (assign_keyword_ranks m [B, D, E]) =
          ranked_results m @ dedup_in_order (map fst m) [B, D, E]"
    by (rule ranked_fused) (simp_all add: KEYWORD_ONLY_RANK_def ne m_def)
  have "snd (query_vector_db env (JString q)) = [A, B, C, D, E]"
    unfolding query_vector_db_main[OF assms(1,2)] k assms(3) m1 f r1 r2 Let_def by simp
  then show ?thesis using assms(5) by simp
qed

theorem C1_witness:
  "model_loaded env_demo \<and> connect_ok env_demo \<and>
   snd (vector_search env_demo (JString ''What is RAG?'')) = Some [''A'', ''B'', ''C''] \<and>
   snd (keyword_search env_demo (JString ''What is RAG?'')) = Some [''B'', ''D'', ''E''] \<and>
   distinct [''A'', ''B'', ''C'', ''D'', ''E''] \<and>
   snd (query_vector_db env_demo (JString ''What is RAG?'')) = [''A'', ''B'', ''C'', ''D'', ''E'']"
proof -
  have 1: "model_loaded env_demo" by (rule model_loaded_demo)
  have 2: "connect_ok env_demo" by (simp add: env_demo_def)
  have 3: "snd (vector_search env_demo (JString ''What is RAG?'')) = Some [''A'', ''B'', ''C'']"
    by (simp add: vector_search_def env_demo_def Let_def)
  have 4: "snd (keyword_search env_demo (JString ''What is RAG?'')) = Some [''B'', ''D'', ''E'']"
    by (simp add: keyword_search_def env_demo_def)
  have 5: "distinct [''A'', ''B'', ''C'', ''D'', ''E'']" by simp
  show ?thesis using C1_fusion_example[OF 1 2 3 4 5] 1 2 3 4 5 by simp
qed

text \<open>
  Claim C3, as stated, fails: when the vector search raises and the keyword search
  returns no row, the result is not the (empty) deduplicated keyword list.
\<close>

theorem C3_counterexample:
  "snd (vector_search env_vector_down (JString ''What is RAG?'')) = None \<and>
   snd (keyword_search env_vector_down (JString ''What is RAG?'')) = Some [] \<and>
   snd (query_vector_db env_vector_down (JString ''What is RAG?'')) \<noteq> dedup_in_order [] []"
  by (simp add: query_vector_db_def model_loaded_def vector_search_def keyword_search_def
      env_vector_down_def env_demo_def Let_def ranked_results_def dict_keys_def)

text \<open>
  Claim C3, amended.  When the vector search raises and the keyword search returns at
  least one row, the result is the keyword rows, each once, in their order, cut to the
  first ten.  When each search raises or returns no row, in any combination, the result is
  the one-element list \<^verbatim>\<open>["No relevant documents found."]\<close>.  The result is never empty.
\<close>

theorem C3_degraded_retrieval:
  assumes "model_loaded env" "connect_ok env"
  shows "(snd (vector_search env q) = None \<and> snd (keyword_search env q) = Some rows \<and> rows \<noteq> []
            \<longrightarrow> snd (query_vector_db env q) = take 10 (dedup_in_order [] rows)) \<and>
         (snd (vector_search env q) \<in> {None, Some []} \<and> snd (keyword_search env q) \<in> {None, Some []}
            \<longrightarrow> snd (query_vector_db env q) = [''No relevant documents found.'']) \<and>
         snd (query_vector_db env q) \<noteq> []"
proof -
  have main: "snd (query_vector_db env q) =
     (let ranked = ranked_results (assign_keyword_ranks
            (case snd (vector_search env q) of Some rows \<Rightarrow> assign_vector_ranks [] 0 rows | None \<Rightarrow> [])
            (keyword_hits env q))
      in if ranked = [] then [''No relevant documents found.''] else take 10 ranked)"
    by (rule query_vector_db_main[OF assms])
  have nil: "ranked_results (assign_keyword_ranks [] ks) = dedup_in_order [] ks" for ks
    using ranked_fused[of "[]" ks] by (simp add: ranked_results_def dict_keys_def)
  have a: "snd (query_vector_db env q) = take 10 (dedup_in_order [] rows)"
    if "snd (vector_search env q) = None" "snd (keyword_search env q) = Some rows" "rows \<noteq> []"
  proof -
    have "keyword_hits env q = rows" using that(2) by (simp add: keyword_hits_def)
    then show ?thesis unfolding main using that(1,3) by (simp add: nil Let_def dedup_Nil_iff)
  qed
  have b: "snd (query_vector_db env q) = [''No relevant documents found.'']"
    if "snd (vector_search env q) \<in> {None, Some []}" "snd (keyword_search env q) \<in> {None, Some []}"
  proof -
    have "keyword_hits env q = []" using that(2) by (auto simp: keyword_hits_def)
    moreover have "(case snd (vector_search env q) of Some rows \<Rightarrow> assign_vector_ranks [] 0 rows | None \<Rightarrow> []) = []"
      using that(1) by auto
    ultimately show ?thesis unfolding main by (simp add: ranked_results_def dict_keys_def)
  qed
  have c: "snd (query_vector_db env q) \<noteq> []"
    unfolding main by (simp add: Let_def)
  from a b c show ?thesis by blast
qed

lemma str_top_k: "str_nat TOP_K = ''5''"
  by code_simp

lemma keyword_query_has_placeholder: "sublist ''LIMIT {TOP_K}'' keyword_query"
  by code_simp

lemma keyword_query_no_limit_5: "\<not> sublist ''LIMIT 5'' keyword_query"
  by code_simp

lemma vector_query_limit_5: "sublist ''LIMIT 5'' vector_query"
  by code_simp

lemma keyword_events:
  "Execute sql [Param p] \<in> set (fst (keyword_search env query_text)) \<Longrightarrow>
     sql = JString keyword_query \<and> p = query_text"
  by (auto simp: keyword_search_def split: if_splits)

lemma vector_events:
  "Execute sql [Param p] \<notin> set (fst (vector_search env query_text))"
  by (auto simp: vector_search_def Let_def split: json.splits if_splits)

lemma query_vector_db_trace:
  "fst (query_vector_db env q) =
     (if \<not> model_loaded env then []
      else if \<not> connect_ok env then [ConnectToDb]
      else ConnectToDb # fst (vector_search env q) @
           (if snd (vector_search env q) = None then [Rollback] else []) @
           fst (keyword_search env q))"
  by (cases "vector_search env q"; cases "keyword_search env q")
     (auto simp: query_vector_db_def Let_def split: option.splits)

text \<open>
  Claim C9.  The only statement \<^verbatim>\<open>query_vector_db\<close> executes with the query text as its
  parameter is \<^verbatim>\<open>keyword_query\<close>, and it is executed whenever the keyword search is
  reached.  Its text contains \<^verbatim>\<open>LIMIT {TOP_K}\<close> and not \<^verbatim>\<open>LIMIT 5\<close>, whereas the vector
  statement, an f-string, contains \<^verbatim>\<open>LIMIT 5\<close>.
\<close>

theorem C9_keyword_limit_not_interpolated:
  "(\<forall>sql p. Execute sql [Param p] \<in> set (fst (query_vector_db env query_text))
       \<longrightarrow> sql = JString keyword_query \<and> p = query_text) \<and>
   (model_loaded env \<and> connect_ok env \<and> (closed_after_vector env \<longrightarrow> reconnect_ok env)
       \<longrightarrow> Execute (JString keyword_query) [Param query_text]
             \<in> set (fst (query_vector_db env query_text))) \<and>
   sublist ''LIMIT {TOP_K}'' keyword_query \<and>
   \<not> sublist ''LIMIT 5'' keyword_query \<and>
   str_nat TOP_K = ''5'' \<and>
   sublist ''LIMIT 5'' vector_query"
proof -
  have 1: "sql = JString keyword_query \<and> p = query_text"
    if "Execute sql [Param p] \<in> set (fst (query_vector_db env query_text))" for sql p
    using that keyword_events[of sql p env query_text] vector_events[of sql p env query_text]
    unfolding query_vector_db_trace by (auto split: if_splits)
  have 2: "Execute (JString keyword_query) [Param query_text]
             \<in> set (fst (query_vector_db env query_text))"
    if "model_loaded env" "connect_ok env" "closed_after_vector env \<longrightarrow> reconnect_ok env"
    using that unfolding query_vector_db_trace by (auto simp: keyword_search_def)
  from 1 2 show ?thesis
    using keyword_query_has_placeholder keyword_query_no_limit_5 str_top_k vector_query_limit_5
    by blast
qed

theorem C9_witness:
  "model_loaded env_demo \<and> connect_ok env_demo \<and> \<not> closed_after_vector env_demo \<and>
   Execute (JString keyword_query) [Param (JString ''What is RAG?'')]
     \<in> set (fst (query_vector_db env_demo (JString ''What is RAG?''))) \<and>
   sublist ''LIMIT {TOP_K}'' keyword_query \<and> \<not> sublist ''LIMIT 5'' keyword_query"
proof -
  have 1: "model_loaded env_demo" by (rule model_loaded_demo)
  have 2: "connect_ok env_demo" "\<not> closed_after_vector env_demo" by (simp_all add: env_demo_def)
  show ?thesis
    using C9_keyword_limit_not_interpolated[of env_demo "JString ''What is RAG?''"] 1 2 by blast
qed

theorem C3_witness:
  "model_loaded env_keyword_only \<and> connect_ok env_keyword_only \<and>
   snd (vector_search env_keyword_only (JString ''What is RAG?'')) = None \<and>
   snd (keyword_search env_keyword_only (JString ''What is RAG?'')) = Some [''B'', ''D'', ''B''] \<and>
   snd (query_vector_db env_keyword_only (JString ''What is RAG?'')) = [''B'', ''D'']"
proof -
  have 1: "model_loaded env_keyword_only"
    by (simp add: model_loaded_def env_keyword_only_def env_demo_def)
  have 2: "connect_ok env_keyword_only" by (simp add: env_keyword_only_def env_demo_def)
  have 3: "snd (vector_search env_keyword_only (JString ''What is RAG?'')) = None"
    by (simp add: vector_search_def env_keyword_only_def env_demo_def Let_def)
  have 4: "snd (keyword_search env_keyword_only (JString ''What is RAG?'')) = Some [''B'', ''D'', ''B'']"
    by (simp add: keyword_search_def env_keyword_only_def env_demo_def)
  show ?thesis
    using C3_degraded_retrieval[OF 1 2, of "JString ''What is RAG?''" "[''B'', ''D'', ''B'']"] 1 2 3 4
    by simp
qed

theorem C2_witness:
  "length (vector_hits env_demo (JString ''What is RAG?'')) \<le> KEYWORD_ONLY_RANK \<and>
   distinct (snd (query_vector_db env_demo (JString ''What is RAG?''))) \<and>
   length (snd (query_vector_db env_demo (JString ''What is RAG?''))) \<le> 10"
proof -
  have h: "length (vector_hits env_demo (JString ''What is RAG?'')) \<le> KEYWORD_ONLY_RANK"
    by (simp add: vector_hits_def vector_search_def env_demo_def Let_def KEYWORD_ONLY_RANK_def)
  show ?thesis using h C2_fused_invariant[OF h] by blast
qed

section \<open>The query pipeline\<close>

subsection \<open>The regular expression and the decoder\<close>

lemma match_to_last_brace_None: "match_to_last_brace s = None \<longleftrightarrow> CHR ''}'' \<notin> set s"
  by (induction s) (auto split: option.splits)


lemma match_to_last_brace_append:
  "CHR ''}'' \<in> set t \<Longrightarrow> \<exists>t'. match_to_last_brace t = Some t' \<and> match_to_last_brace (s @ t) = Some (s @ t')"
proof (induction s)
  case Nil
  then show ?case using match_to_last_brace_None[of t] by (cases "match_to_last_brace t") auto
next
  case (Cons c s)
  then show ?case by auto
qed







subsection \<open>The paths of handle\_user\_query\<close>



















end
